theory Spec2Isabelle
  imports Complex_Main "HOL-Library.Sublist"
begin

section \<open>The TFA points scraper (tfa\_scraper.py) and its caller (app.py)\<close>

text \<open>
  The scraper walks the result pages of one tournament on a remote site, finds on each
  page the qualification-points table, turns its rows into dictionaries and stops after
  a run of pages without rows. The development follows the source function by function:
  strings and the two regular expressions, the parsed document tree, the table locator,
  the row parser, the page probe and the scan loop.

  Conventions of the model.
  \<^item> A Python \<open>str\<close> is a \<open>string\<close>; the character classes (\<open>\d\<close>, whitespace,
    \<open>lower\<close>) are the ASCII ones.
  \<^item> A \<open>float\<close> is the rational number its decimal literal denotes: the rounding of
    \<open>float()\<close> to a double is outside the model.
  \<^item> The remote site is a function from the URL to the outcome of the request, and every
    function that fetches takes the list of the URLs requested so far and returns it
    extended, beside its result. \<open>time.sleep\<close> and \<open>print\<close> have no counterpart.
\<close>

subsection \<open>Strings\<close>

definition is_digit :: "char \<Rightarrow> bool" where
  "is_digit c = (c \<in> set ''0123456789'')"

text \<open>\<open>str.isspace\<close> on ASCII: tab, line feed, vertical tab, form feed, carriage return,
  the four separators \<open>0x1c\<close> to \<open>0x1f\<close>, and the space.\<close>

definition is_space :: "char \<Rightarrow> bool" where
  "is_space c = (let n = (of_char c :: nat) in (9 \<le> n \<and> n \<le> 13) \<or> (28 \<le> n \<and> n \<le> 32))"

definition py_strip :: "string \<Rightarrow> string" where
  "py_strip s = rev (dropWhile is_space (rev (dropWhile is_space s)))"

definition to_lower :: "char \<Rightarrow> char" where
  "to_lower c =
     (case map_of (zip ''ABCDEFGHIJKLMNOPQRSTUVWXYZ'' ''abcdefghijklmnopqrstuvwxyz'') c of
        Some d \<Rightarrow> d
      | None \<Rightarrow> c)"

definition py_lower :: "string \<Rightarrow> string" where
  "py_lower s = map to_lower s"

text \<open>\<open>sep.join(xs)\<close>.\<close>

fun py_join :: "string \<Rightarrow> string list \<Rightarrow> string" where
  "py_join sep [] = []"
| "py_join sep [x] = x"
| "py_join sep (x # y # ys) = x @ sep @ py_join sep (y # ys)"

text \<open>\<open>p in s\<close> for two strings: \<open>p\<close> occurs in \<open>s\<close> as a contiguous block.\<close>

fun py_in :: "string \<Rightarrow> string \<Rightarrow> bool" where
  "py_in p [] = (p = [])"
| "py_in p (c # cs) = (prefix p (c # cs) \<or> py_in p cs)"

text \<open>\<open>s.split("|")[0]\<close>: the text before the first bar.\<close>

definition split_bar_first :: "string \<Rightarrow> string" where
  "split_bar_first s = takeWhile (\<lambda>c. c \<noteq> CHR ''|'') s"

text \<open>\<open>s.replace(",", "")\<close>.\<close>

definition remove_commas :: "string \<Rightarrow> string" where
  "remove_commas s = filter (\<lambda>c. c \<noteq> CHR '','') s"

subsection \<open>Regular expressions\<close>

text \<open>
  The two patterns of the source are sequences of single-character items, each taken
  once, optionally (\<open>?\<close>), any number of times (\<open>*\<close>) or at least once (\<open>+\<close>).
  \<open>re_match\<close> is the backtracking matcher of Python's \<open>re\<close> at one position: a
  quantifier is greedy, it first takes a character and gives it back when the rest of
  the pattern fails. The result is the matched text, \<open>group(0)\<close>.
  \<open>re_search\<close> tries every position from the left and keeps the first match.
\<close>

datatype rx = One "char \<Rightarrow> bool" | Opt "char \<Rightarrow> bool" | Star "char \<Rightarrow> bool" | Plus "char \<Rightarrow> bool"

fun re_match :: "rx list \<Rightarrow> string \<Rightarrow> string option" where
  "re_match [] s = Some []"
| "re_match (One p # ps) [] = None"
| "re_match (One p # ps) (c # cs) =
     (if p c then map_option ((#) c) (re_match ps cs) else None)"
| "re_match (Plus p # ps) [] = None"
| "re_match (Plus p # ps) (c # cs) =
     (if p c then map_option ((#) c) (re_match (Star p # ps) cs) else None)"
| "re_match (Opt p # ps) [] = re_match ps []"
| "re_match (Opt p # ps) (c # cs) =
     (if p c then (case re_match ps cs of
                     Some m \<Rightarrow> Some (c # m)
                   | None \<Rightarrow> re_match ps (c # cs))
      else re_match ps (c # cs))"
| "re_match (Star p # ps) [] = re_match ps []"
| "re_match (Star p # ps) (c # cs) =
     (if p c then (case re_match (Star p # ps) cs of
                     Some m \<Rightarrow> Some (c # m)
                   | None \<Rightarrow> re_match ps (c # cs))
      else re_match ps (c # cs))"

fun re_search :: "rx list \<Rightarrow> string \<Rightarrow> string option" where
  "re_search ps [] = re_match ps []"
| "re_search ps (c # cs) =
     (case re_match ps (c # cs) of
        Some m \<Rightarrow> Some m
      | None \<Rightarrow> re_search ps cs)"

definition literal :: "string \<Rightarrow> rx list" where
  "literal s = map (\<lambda>x. One (\<lambda>c. c = x)) s"

text \<open>\<^verbatim>\<open>[-+]?\d*\.?\d+\<close>\<close>

definition points_pattern :: "rx list" where
  "points_pattern =
     [Opt (\<lambda>c. c = CHR ''-'' \<or> c = CHR ''+''), Star is_digit, Opt (\<lambda>c. c = CHR ''.''),
      Plus is_digit]"

text \<open>\<^verbatim>\<open>result_id=(\d+)\<close>\<close>

definition result_id_pattern :: "rx list" where
  "result_id_pattern = literal ''result_id='' @ [Plus is_digit]"

subsection \<open>Numbers from text\<close>

definition digit_val :: "char \<Rightarrow> nat" where
  "digit_val c = of_char c - 48"

definition digits_val :: "string \<Rightarrow> nat" where
  "digits_val ds = foldl (\<lambda>a c. 10 * a + digit_val c) 0 ds"

text \<open>\<open>int(s)\<close> on the text of a group \<^verbatim>\<open>\d+\<close>.\<close>

definition py_int :: "string \<Rightarrow> int" where
  "py_int ds = int (digits_val ds)"

text \<open>
  \<open>float(s)\<close> on a decimal literal: an optional sign (\<open>py_float\<close>), then digits
  and optionally a point and digits, with a digit somewhere (\<open>float_body\<close>). Any
  other text is the \<open>ValueError\<close>, \<open>None\<close> here. (The exponent, \<open>inf\<close>, \<open>nan\<close> and underscore forms that \<open>float\<close> also reads
  contain characters no match of \<open>points_pattern\<close> has.)
\<close>

definition float_body :: "rat \<Rightarrow> string \<Rightarrow> rat option" where
  "float_body sg body =
     (let ip = takeWhile is_digit body;
          rest = dropWhile is_digit body;
          fp = (case rest of
                  [] \<Rightarrow> Some []
                | c # r \<Rightarrow> if c = CHR ''.'' \<and> list_all is_digit r then Some r else None)
      in case fp of
           None \<Rightarrow> None
         | Some f \<Rightarrow>
             if ip = [] \<and> f = [] then None
             else Some (sg * (of_nat (digits_val ip) + of_nat (digits_val f) / 10 ^ length f)))"

definition py_float :: "string \<Rightarrow> rat option" where
  "py_float s =
     (case s of
        [] \<Rightarrow> float_body 1 s
      | c # r \<Rightarrow>
          if c = CHR ''-'' then float_body (- 1) r
          else if c = CHR ''+'' then float_body 1 r
          else float_body 1 s)"

text \<open>\<open>str(n)\<close> of an integer, for the URL of a result page.\<close>

fun dec :: "nat \<Rightarrow> string" where
  "dec n = (if n < 10 then [''0123456789'' ! n] else dec (n div 10) @ [''0123456789'' ! (n mod 10)])"

definition py_str_int :: "int \<Rightarrow> string" where
  "py_str_int i = (if i < 0 then CHR ''-'' # dec (nat (- i)) else dec (nat i))"

declare dec.simps [simp del]

subsection \<open>The parsed document\<close>

text \<open>
  What \<open>BeautifulSoup(r.text, "html.parser")\<close> gives: a tree of tags, each with its
  name, its attributes (the dictionary of the tag, one entry for a name) and its
  children, and of text. The document itself is the root tag, and the searches below
  look at its descendants in document order, as \<open>find\<close>, \<open>find_all\<close> and
  \<open>select\<close> do. Comments and other special strings are not part of the model.
\<close>

datatype node = Element string "(string \<times> string) list" "node list" | Text string

fun descendants :: "node \<Rightarrow> node list" where
  "descendants (Text s) = []"
| "descendants (Element t a cs) = concat (map (\<lambda>c. c # descendants c) cs)"

fun is_tag :: "string list \<Rightarrow> node \<Rightarrow> bool" where
  "is_tag names (Element t a cs) = (t \<in> set names)"
| "is_tag names (Text s) = False"

definition soup_find_all :: "string list \<Rightarrow> node \<Rightarrow> node list" where
  "soup_find_all names n = filter (is_tag names) (descendants n)"

definition soup_find :: "string list \<Rightarrow> node \<Rightarrow> node option" where
  "soup_find names n = (case soup_find_all names n of [] \<Rightarrow> None | x # xs \<Rightarrow> Some x)"

text \<open>The strings below a tag, in document order.\<close>

fun strings :: "node \<Rightarrow> string list" where
  "strings (Text s) = [s]"
| "strings (Element t a cs) = concat (map strings cs)"

text \<open>\<open>tag.get_text(" ", strip=True)\<close>: every string stripped, the empty ones dropped,
  the rest joined by one space.\<close>

definition get_text_strip :: "node \<Rightarrow> string" where
  "get_text_strip n = py_join '' '' (filter (\<lambda>s. s \<noteq> []) (map py_strip (strings n)))"

text \<open>\<open>tag.text\<close>: the strings as they are, concatenated.\<close>

definition get_text :: "node \<Rightarrow> string" where
  "get_text n = concat (strings n)"

text \<open>\<open>tag.string\<close>: the only string of a tag with one child, through tags with one
  child; \<open>None\<close> for a tag with no child or several.\<close>

fun node_string :: "node \<Rightarrow> string option" where
  "node_string (Text s) = Some s"
| "node_string (Element t a []) = None"
| "node_string (Element t a [c]) = node_string c"
| "node_string (Element t a (c # d # cs)) = None"

fun get_attr :: "node \<Rightarrow> string \<Rightarrow> string option" where
  "get_attr (Element t a cs) k = map_of a k"
| "get_attr (Text s) k = None"

subsection \<open>Result-ID discovery\<close>

text \<open>\<open>soup.select("a[href*='event_results.mhtml']")\<close>\<close>

definition select_result_links :: "node \<Rightarrow> node list" where
  "select_result_links soup =
     filter (\<lambda>n. is_tag [''a''] n \<and>
                 (case get_attr n ''href'' of
                    None \<Rightarrow> False
                  | Some h \<Rightarrow> py_in ''event_results.mhtml'' h))
       (descendants soup)"

text \<open>The body of the loop over the links: the identifier a link adds to \<open>ids\<close>, if any.
  \<open>m.group(1)\<close> is the match without the ten characters of \<open>result_id=\<close>.\<close>

definition link_result_id :: "node \<Rightarrow> int option" where
  "link_result_id a =
     (let href = (case get_attr a ''href'' of None \<Rightarrow> [] | Some h \<Rightarrow> h)
      in case re_search result_id_pattern href of
           None \<Rightarrow> None
         | Some m \<Rightarrow> Some (py_int (drop 10 m)))"

text \<open>\<open>sorted(ids)\<close> of the set \<open>ids\<close>.\<close>

definition index_result_ids :: "node \<Rightarrow> int list" where
  "index_result_ids soup = sort (remdups (List.map_filter link_result_id (select_result_links soup)))"

subsection \<open>Table locator\<close>

text \<open>
  A tag of the page is known by its place in document order, so the locator returns the
  place of the table together with the table. \<open>heading.find_next("table")\<close> is the first
  table among the elements after the heading in document order.
\<close>

definition heading_matches :: "node \<Rightarrow> bool" where
  "heading_matches n =
     (is_tag [''h3'', ''h4''] n \<and>
      (case node_string n of
         None \<Rightarrow> False
       | Some x \<Rightarrow> x \<noteq> [] \<and> (py_in ''TFA'' x \<or> py_in ''Qualification'' x)))"

definition header_texts :: "node \<Rightarrow> string list" where
  "header_texts header_cells =
     map (\<lambda>c. py_lower (get_text_strip c)) (soup_find_all [''th'', ''td''] header_cells)"

definition fallback_matches :: "node \<Rightarrow> bool" where
  "fallback_matches tbl =
     (case soup_find [''tr''] tbl of
        None \<Rightarrow> False
      | Some header_cells \<Rightarrow>
          (let texts = header_texts header_cells;
               header_str = py_join '' '' texts
           in (py_in ''point'' header_str \<and> (py_in ''place'' header_str \<or> py_in ''placed'' header_str))
              \<or> (length texts \<ge> 3 \<and> (py_in ''point'' header_str \<or> py_in ''tfa'' header_str))))"

definition find_next_table :: "nat \<Rightarrow> node \<Rightarrow> (nat \<times> node) option" where
  "find_next_table i soup =
     List.find (\<lambda>(j, n). is_tag [''table''] n) (drop (Suc i) (enumerate 0 (descendants soup)))"

definition fallback_scan :: "node \<Rightarrow> (nat \<times> node) option" where
  "fallback_scan soup =
     List.find (\<lambda>(j, n). is_tag [''table''] n \<and> fallback_matches n) (enumerate 0 (descendants soup))"

definition find_tfa_table :: "node \<Rightarrow> (nat \<times> node) option" where
  "find_tfa_table soup =
     (case List.find (\<lambda>(i, n). heading_matches n) (enumerate 0 (descendants soup)) of
        None \<Rightarrow> fallback_scan soup
      | Some (i, heading) \<Rightarrow>
          (case find_next_table i soup of
             Some tbl \<Rightarrow> Some tbl
           | None \<Rightarrow> fallback_scan soup))"

subsection \<open>Row parser\<close>

text \<open>A record is the dictionary the source builds: its keys in the order written, each
  with a number or a string.\<close>

datatype pyval = Num rat | Str string

type_synonym row = "(string \<times> pyval) list"

text \<open>The \<open>try\<close> block: the number in the text of the first cell. A text without a match
  and a match \<open>float\<close> rejects both skip the row.\<close>

definition extract_points :: "string \<Rightarrow> rat option" where
  "extract_points pts_str =
     (case re_search points_pattern (remove_commas pts_str) of
        None \<Rightarrow> None
      | Some m \<Rightarrow> py_float m)"

text \<open>The body of the loop over the rows: the record of one \<open>tr\<close>, or nothing.\<close>

definition parse_row :: "string \<Rightarrow> node \<Rightarrow> row option" where
  "parse_row event_name tr =
     (let tds = soup_find_all [''td''] tr
      in if length tds < 4 then None
         else case extract_points (get_text_strip (tds ! 0)) of
                None \<Rightarrow> None
              | Some points \<Rightarrow>
                  Some [(''points'', Num points),
                        (''entry'', Str (if length tds \<ge> 3 then get_text_strip (tds ! 2) else [])),
                        (''school'', Str (if length tds \<ge> 4 then get_text_strip (tds ! 3) else [])),
                        (''qualifying_event'',
                           Str (if length tds \<ge> 5 then get_text_strip (tds ! 4) else [])),
                        (''event'', Str event_name)])"

definition parse_tfa_rows :: "node \<Rightarrow> string \<Rightarrow> row list" where
  "parse_tfa_rows table event_name =
     (let rows = soup_find_all [''tr''] table
      in if rows = [] then []
         else let start_idx = (if soup_find_all [''th'', ''td''] (rows ! 0) \<noteq> [] then 1 else 0)
              in List.map_filter (parse_row event_name) (drop start_idx rows))"

subsection \<open>Event name\<close>

definition get_event_name :: "node \<Rightarrow> string" where
  "get_event_name soup =
     (let from_title =
            (case soup_find [''title''] soup of
               None \<Rightarrow> ''Unknown Event''
             | Some title \<Rightarrow>
                 if get_text title \<noteq> [] then py_strip (split_bar_first (get_text title))
                 else ''Unknown Event'')
      in case soup_find [''h2''] soup of
           None \<Rightarrow> from_title
         | Some h2 \<Rightarrow> (let name = get_text_strip h2 in if name \<noteq> [] then name else from_title))"

subsection \<open>Page fetcher\<close>

text \<open>
  \<open>get_soup\<close> raises what \<open>SESSION.get\<close> raises (\<open>requests.Timeout\<close>,
  \<open>requests.ConnectionError\<close>) and what \<open>raise_for_status\<close> raises
  (\<open>requests.HTTPError\<close>). In \<open>requests\<close> these are three separate subclasses of
  \<open>RequestException\<close>. A function that fetches takes the list of the URLs requested so
  far and returns it extended, with its result or the exception that left it.
\<close>

datatype transport_error = HTTPError | Timeout | ConnectionError

type_synonym site = "string \<Rightarrow> transport_error + node"

type_synonym 'a fetching = "(transport_error + 'a) \<times> string list"

definition BASE :: string where
  "BASE = ''https://www.tabroom.com''"

definition index_url :: "string \<Rightarrow> string" where
  "index_url tourn_id = BASE @ ''/index/tourn/results/index.mhtml?tourn_id='' @ tourn_id"

definition result_url :: "string \<Rightarrow> int \<Rightarrow> string" where
  "result_url tourn_id result_id =
     BASE @ ''/index/tourn/results/event_results.mhtml?tourn_id='' @ tourn_id
          @ ''&result_id='' @ py_str_int result_id"

definition get_soup :: "site \<Rightarrow> string \<Rightarrow> string list \<Rightarrow> node fetching" where
  "get_soup site url urls = (site url, urls @ [url])"

definition extract_result_ids_from_index :: "site \<Rightarrow> string \<Rightarrow> string list \<Rightarrow> (int list) fetching" where
  "extract_result_ids_from_index site tourn_id urls =
     (case get_soup site (index_url tourn_id) urls of
        (Inl e, urls') \<Rightarrow> (Inl e, urls')
      | (Inr soup, urls') \<Rightarrow> (Inr (index_result_ids soup), urls'))"

subsection \<open>Page probe\<close>

text \<open>Only \<open>requests.HTTPError\<close> is caught; any other exception of \<open>get_soup\<close> leaves
  the function.\<close>

definition page_has_tfa_points ::
  "site \<Rightarrow> string \<Rightarrow> int \<Rightarrow> string list \<Rightarrow> (row list \<times> string) fetching" where
  "page_has_tfa_points site tourn_id result_id urls =
     (case get_soup site (result_url tourn_id result_id) urls of
        (Inl HTTPError, urls') \<Rightarrow> (Inr ([], ''Unknown Event''), urls')
      | (Inl Timeout, urls') \<Rightarrow> (Inl Timeout, urls')
      | (Inl ConnectionError, urls') \<Rightarrow> (Inl ConnectionError, urls')
      | (Inr soup, urls') \<Rightarrow>
          (let event_name = get_event_name soup
           in case find_tfa_table soup of
                None \<Rightarrow> (Inr ([], event_name), urls')
              | Some (pos, tbl) \<Rightarrow> (Inr (parse_tfa_rows tbl event_name, event_name), urls')))"

subsection \<open>Scan controller\<close>

text \<open>The \<open>for\<close> loop of \<open>find_true_starting_result_id\<close> over the sorted candidates.\<close>

fun seek_start :: "site \<Rightarrow> string \<Rightarrow> int list \<Rightarrow> string list \<Rightarrow> (int option) fetching" where
  "seek_start site tourn_id [] urls = (Inr None, urls)"
| "seek_start site tourn_id (rid # rest) urls =
     (case page_has_tfa_points site tourn_id rid urls of
        (Inl e, urls') \<Rightarrow> (Inl e, urls')
      | (Inr (rows, ev), urls') \<Rightarrow>
          if rows \<noteq> [] then (Inr (Some rid), urls') else seek_start site tourn_id rest urls')"

definition find_true_starting_result_id ::
  "site \<Rightarrow> string \<Rightarrow> int list \<Rightarrow> string list \<Rightarrow> (int option) fetching" where
  "find_true_starting_result_id site tourn_id candidates urls =
     seek_start site tourn_id (sort candidates) urls"

text \<open>The local variables of the scan, and its \<open>while\<close> loop. The loop need not end, so
  its result is optional: \<open>None\<close> is the scan that runs forever.\<close>

record scan_state =
  all_rows :: "row list"
  rid :: int
  empty_streak :: int

partial_function (option) scan_loop ::
  "site \<Rightarrow> string \<Rightarrow> int \<Rightarrow> scan_state \<Rightarrow> string list \<Rightarrow> (scan_state fetching) option" where
  "scan_loop site tourn_id empty_streak_limit st urls =
     (if empty_streak st < empty_streak_limit then
        (case page_has_tfa_points site tourn_id (rid st) urls of
           (Inl e, urls') \<Rightarrow> Some (Inl e, urls')
         | (Inr (rows, ev), urls') \<Rightarrow>
             if rows \<noteq> [] then
               scan_loop site tourn_id empty_streak_limit
                 \<lparr>all_rows = all_rows st @ rows, rid = rid st + 1, empty_streak = 0\<rparr> urls'
             else
               scan_loop site tourn_id empty_streak_limit
                 \<lparr>all_rows = all_rows st, rid = rid st + 1, empty_streak = empty_streak st + 1\<rparr> urls')
      else Some (Inr st, urls))"

definition default_empty_streak_limit :: int where
  "default_empty_streak_limit = 12"

text \<open>The part of \<open>scrape_tfa_tournament\<close> from \<open>all_rows = []\<close> on.\<close>

definition scan_from :: "site \<Rightarrow> string \<Rightarrow> int \<Rightarrow> int \<Rightarrow> string list \<Rightarrow> (row list) fetching option" where
  "scan_from site tourn_id empty_streak_limit start_id urls =
     (case scan_loop site tourn_id empty_streak_limit
             \<lparr>all_rows = [], rid = start_id, empty_streak = 0\<rparr> urls of
        None \<Rightarrow> None
      | Some (Inl e, urls') \<Rightarrow> Some (Inl e, urls')
      | Some (Inr st, urls') \<Rightarrow> Some (Inr (all_rows st), urls'))"

definition scrape_tfa_tournament :: "site \<Rightarrow> string \<Rightarrow> int \<Rightarrow> (row list) fetching option" where
  "scrape_tfa_tournament site tourn_id empty_streak_limit =
     (case extract_result_ids_from_index site tourn_id [] of
        (Inl e, urls) \<Rightarrow> Some (Inl e, urls)
      | (Inr candidates, urls) \<Rightarrow>
          if candidates = [] then Some (Inr [], urls)
          else (case find_true_starting_result_id site tourn_id candidates urls of
                  (Inl e, urls') \<Rightarrow> Some (Inl e, urls')
                | (Inr found, urls') \<Rightarrow>
                    (let start_id = (case found of None \<Rightarrow> min_list candidates | Some s \<Rightarrow> s)
                     in scan_from site tourn_id empty_streak_limit start_id urls')))"

subsection \<open>The caller in app.py\<close>

text \<open>
  \<open>pd.DataFrame(scraped)[cols]\<close>: the frame of a list of dictionaries has the keys of the
  dictionaries as columns, and selecting a column it does not have raises \<open>KeyError\<close>.
\<close>

datatype key_error = KeyError "string list"

definition frame_columns :: "row list \<Rightarrow> string list" where
  "frame_columns scraped = remdups (concat (map (map fst) scraped))"

definition select_columns :: "row list \<Rightarrow> string list \<Rightarrow> key_error + pyval option list list" where
  "select_columns scraped cols =
     (case filter (\<lambda>c. c \<notin> set (frame_columns scraped)) cols of
        [] \<Rightarrow> Inr (map (\<lambda>r. map (map_of r) cols) scraped)
      | missing \<Rightarrow> Inl (KeyError missing))"

text \<open>The columns the admin block of \<open>app.py\<close> selects before it appends to the sheet.\<close>

definition sheet_columns :: "string list" where
  "sheet_columns = [''entry'', ''school'', ''qualifying_event'', ''event'', ''points'', ''tournament'']"

definition new_df :: "row list \<Rightarrow> key_error + pyval option list list" where
  "new_df scraped = select_columns scraped sheet_columns"

subsection \<open>What a probe gives\<close>

text \<open>The rows \<open>page_has_tfa_points\<close> returns for an identifier, or the exception that
  leaves it. The URLs requested before the probe have no part in it.\<close>

definition page_rows :: "site \<Rightarrow> string \<Rightarrow> int \<Rightarrow> transport_error + row list" where
  "page_rows site tourn_id result_id =
     (case fst (page_has_tfa_points site tourn_id result_id []) of
        Inl e \<Rightarrow> Inl e
      | Inr (rows, ev) \<Rightarrow> Inr rows)"

text \<open>The rows an identifier gives to the scan: none when the probe raises.\<close>

definition rows_at :: "site \<Rightarrow> string \<Rightarrow> int \<Rightarrow> row list" where
  "rows_at site tourn_id result_id =
     (case page_rows site tourn_id result_id of Inl e \<Rightarrow> [] | Inr rows \<Rightarrow> rows)"

subsection \<open>Numeric-looking texts\<close>



subsection \<open>Example documents\<close>

text \<open>Small documents and sites on which the theorems below are run.\<close>

definition td :: "string \<Rightarrow> node" where
  "td s = Element ''td'' [] [Text s]"

definition th :: "string \<Rightarrow> node" where
  "th s = Element ''th'' [] [Text s]"

definition tr :: "node list \<Rightarrow> node" where
  "tr cells = Element ''tr'' [] cells"

text \<open>An index page whose only link is not a link to a result page.\<close>

definition index_without_links :: node where
  "index_without_links =
     Element ''[document]'' [] [Element ''a'' [(''href'', ''/index/about.mhtml'')] [Text ''About'']]"

definition site_without_links :: site where
  "site_without_links url =
     (if url = index_url ''36095'' then Inr index_without_links else Inl HTTPError)"

text \<open>A table with no header row: its only row is a data row.\<close>

definition one_row_table :: node where
  "one_row_table =
     Element ''table'' [] [tr [td ''10'', td ''1st'', td ''Ann Lee'', td ''Lincoln HS'']]"

text \<open>A points table with a header row and one data row, and the record of that row.\<close>

definition points_table :: node where
  "points_table =
     Element ''table'' []
       [tr [th ''Points'', th ''Place'', th ''Entry'', th ''School''],
        tr [td ''10'', td ''1st'', td ''Ann Lee'', td ''Lincoln HS'']]"

definition ann_lee :: "string \<Rightarrow> row" where
  "ann_lee ev =
     [(''points'', Num 10), (''entry'', Str ''Ann Lee''), (''school'', Str ''Lincoln HS''),
      (''qualifying_event'', Str []), (''event'', Str ev)]"

text \<open>A result page with the table, and one with neither an \<open>h2\<close> nor a title before
  the bar.\<close>

definition result_page :: node where
  "result_page =
     Element ''[document]'' []
       [Element ''title'' [] [Text ''Varsity LD | Tabroom''],
        Element ''h2'' [] [Text ''Varsity LD''],
        Element ''h4'' [] [Text ''TFA Qualification''],
        points_table]"

definition untitled_page :: node where
  "untitled_page =
     Element ''[document]'' []
       [Element ''title'' [] [Text ''| Tabroom''],
        Element ''h4'' [] [Text ''TFA Qualification''],
        points_table]"

text \<open>An index page linking result page 5, and two sites that serve the index and
  result page 5: on any other URL the first times out, the second answers with an HTTP
  failure status.\<close>

definition index_page :: node where
  "index_page =
     Element ''[document]'' []
       [Element ''a''
          [(''href'', ''/index/tourn/results/event_results.mhtml?tourn_id=36095&result_id=5'')]
          [Text ''Varsity LD'']]"

definition flaky_site :: site where
  "flaky_site url =
     (if url = index_url ''36095'' then Inr index_page
      else if url = result_url ''36095'' 5 then Inr result_page
      else Inl Timeout)"

definition demo_site :: site where
  "demo_site url =
     (if url = index_url ''36095'' then Inr index_page
      else if url = result_url ''36095'' 5 then Inr result_page
      else Inl HTTPError)"

text \<open>A site scripted for the scan: the index links result pages 5 and 3, the result
  pages 5, 6 and 9 hold the points table, and every other URL answers with an HTTP failure
  status.\<close>

definition scripted_index :: node where
  "scripted_index =
     Element ''[document]'' []
       [Element ''a''
          [(''href'', ''/index/tourn/results/event_results.mhtml?tourn_id=36095&result_id=5'')]
          [Text ''Varsity LD''],
        Element ''a''
          [(''href'', ''/index/tourn/results/event_results.mhtml?tourn_id=36095&result_id=3'')]
          [Text ''Novice LD'']]"

definition scripted_site :: site where
  "scripted_site url =
     (if url = index_url ''36095'' then Inr scripted_index
      else if url = result_url ''36095'' 5 \<or> url = result_url ''36095'' 6
              \<or> url = result_url ''36095'' 9 then Inr result_page
      else Inl HTTPError)"

definition scripted_rows :: "int \<Rightarrow> row list" where
  "scripted_rows i = (if i = 5 \<or> i = 6 \<or> i = 9 then [ann_lee ''Varsity LD''] else [])"

text \<open>Pages for the table locator: one with two marked headings, each followed by a
  table, and one where a table the fallback accepts stands before the marked heading.\<close>

definition schedule_table :: node where
  "schedule_table = Element ''table'' [] [tr [th ''Room'', th ''Judge'']]"

definition two_headings_page :: node where
  "two_headings_page =
     Element ''[document]'' []
       [Element ''h3'' [] [Text ''TFA District 5''],
        schedule_table,
        Element ''h4'' [] [Text ''TFA Qualification''],
        points_table]"

definition standings_table :: node where
  "standings_table = Element ''table'' [] [tr [th ''Place'', th ''Points'', th ''School'']]"

definition preferred_page :: node where
  "preferred_page =
     Element ''[document]'' []
       [standings_table,
        Element ''h4'' [] [Text ''TFA Qualification''],
        points_table]"

section \<open>Properties\<close>

lemmas dom_defs = td_def th_def tr_def soup_find_all_def soup_find_def get_text_def
  get_text_strip_def py_strip_def is_space_def split_bar_first_def

lemmas num_defs = extract_points_def remove_commas_def points_pattern_def is_digit_def
  py_float_def float_body_def digits_val_def digit_val_def

subsection \<open>Discovery without candidates\<close>

lemma result_url_not_index: "result_url t r \<noteq> index_url t"
  by (simp add: index_url_def result_url_def BASE_def)

text \<open>
  Claim C7. When the results index page of a tournament has no link that matches the
  pattern of a result page, \<open>scrape_tfa_tournament\<close> returns the empty list, not an
  exception, and the only URL it requested is the index: no result page was fetched, by
  the seeking or by the scan.
\<close>

theorem no_candidates_no_probe:
  assumes "site (index_url tourn_id) = Inr soup" and "select_result_links soup = []"
  shows "scrape_tfa_tournament site tourn_id limit = Some (Inr [], [index_url tourn_id])
         \<and> (\<forall>r. result_url tourn_id r \<notin> set [index_url tourn_id])"
  using assms
  by (auto simp add: result_url_not_index scrape_tfa_tournament_def
      extract_result_ids_from_index_def get_soup_def index_result_ids_def List.map_filter_def)

theorem no_candidates_no_probe_witness:
  "site_without_links (index_url ''36095'') = Inr index_without_links
   \<and> select_result_links index_without_links = []
   \<and> scrape_tfa_tournament site_without_links ''36095'' 12 = Some (Inr [], [index_url ''36095''])"
proof -
  have a: "site_without_links (index_url ''36095'') = Inr index_without_links"
    by (simp add: site_without_links_def)
  have b: "select_result_links index_without_links = []"
    by (simp add: select_result_links_def index_without_links_def)
  show ?thesis
    using a b no_candidates_no_probe [of site_without_links "''36095''" index_without_links 12]
    by simp
qed

subsection \<open>The first row of a table\<close>

lemma td_is_cell: "is_tag [''td''] n \<Longrightarrow> is_tag [''th'', ''td''] n"
  by (cases n) auto

lemma no_cells_no_td:
  "soup_find_all [''th'', ''td''] r = [] \<Longrightarrow> soup_find_all [''td''] r = []"
  unfolding soup_find_all_def filter_empty_conv by (blast dest: td_is_cell)

text \<open>
  Claim C8. Let \<open>r\<close> be the first \<open>tr\<close> of the table and \<open>rs\<close> the ones after it. When
  \<open>r\<close> has a \<open>th\<close> or \<open>td\<close> cell the records are those of \<open>rs\<close> alone, whatever \<open>r\<close>
  holds, so a first row that is a well-formed data row gives no record. Only when \<open>r\<close>
  has no cell does the loop start at \<open>r\<close> (which then has no \<open>td\<close> and gives no record
  either).
\<close>

theorem first_row_skipped:
  assumes "soup_find_all [''tr''] table = r # rs"
  shows "(soup_find_all [''th'', ''td''] r \<noteq> [] \<longrightarrow>
            parse_tfa_rows table ev = List.map_filter (parse_row ev) rs)
       \<and> (soup_find_all [''th'', ''td''] r = [] \<longrightarrow>
            parse_tfa_rows table ev = List.map_filter (parse_row ev) (r # rs)
            \<and> parse_row ev r = None)"
  using assms no_cells_no_td [of r]
  by (auto simp add: parse_tfa_rows_def parse_row_def)

theorem first_row_skipped_witness:
  "soup_find_all [''tr''] one_row_table = [tr [td ''10'', td ''1st'', td ''Ann Lee'', td ''Lincoln HS'']]
   \<and> parse_row ''LD'' (tr [td ''10'', td ''1st'', td ''Ann Lee'', td ''Lincoln HS'']) =
        Some [(''points'', Num 10), (''entry'', Str ''Ann Lee''), (''school'', Str ''Lincoln HS''),
              (''qualifying_event'', Str []), (''event'', Str ''LD'')]
   \<and> parse_tfa_rows one_row_table ''LD'' = []"
proof -
  let ?r = "tr [td ''10'', td ''1st'', td ''Ann Lee'', td ''Lincoln HS'']"
  have a: "soup_find_all [''tr''] one_row_table = [?r]"
    by (simp add: one_row_table_def dom_defs)
  have b: "soup_find_all [''th'', ''td''] ?r \<noteq> []"
    by (simp add: dom_defs)
  have c: "parse_row ''LD'' ?r =
        Some [(''points'', Num 10), (''entry'', Str ''Ann Lee''), (''school'', Str ''Lincoln HS''),
              (''qualifying_event'', Str []), (''event'', Str ''LD'')]"
    by (simp add: parse_row_def dom_defs num_defs)
  show ?thesis
    using a b c first_row_skipped [of one_row_table ?r "[]" "''LD''"]
    by (simp add: List.map_filter_def)
qed

subsection \<open>The example documents, evaluated\<close>

lemma parse_points_table: "parse_tfa_rows points_table ev = [ann_lee ev]"
  by (simp add: parse_tfa_rows_def points_table_def parse_row_def dom_defs num_defs
      List.map_filter_def ann_lee_def)

lemma find_in_result_page: "find_tfa_table result_page = Some (6, points_table)"
  by (simp add: find_tfa_table_def result_page_def points_table_def heading_matches_def
      find_next_table_def dom_defs)

lemma find_in_untitled_page: "find_tfa_table untitled_page = Some (4, points_table)"
  by (simp add: find_tfa_table_def untitled_page_def points_table_def heading_matches_def
      find_next_table_def dom_defs)

lemma name_result_page: "get_event_name result_page = ''Varsity LD''"
  by (simp add: get_event_name_def result_page_def points_table_def dom_defs)

lemma name_untitled_page: "get_event_name untitled_page = []"
  by (simp add: get_event_name_def untitled_page_def points_table_def dom_defs)

lemma ids_index_page: "index_result_ids index_page = [5]"
  by (simp add: index_result_ids_def index_page_def select_result_links_def link_result_id_def
      List.map_filter_def result_id_pattern_def literal_def is_digit_def py_int_def
      digits_val_def digit_val_def)

lemma urlidx:
  "index_url ''36095'' = ''https://www.tabroom.com/index/tourn/results/index.mhtml?tourn_id=36095''"
  by (simp add: index_url_def BASE_def)

lemma url5:
  "result_url ''36095'' 5 =
   ''https://www.tabroom.com/index/tourn/results/event_results.mhtml?tourn_id=36095&result_id=5''"
  by (simp add: result_url_def BASE_def py_str_int_def dec.simps)

lemma url6:
  "result_url ''36095'' 6 =
   ''https://www.tabroom.com/index/tourn/results/event_results.mhtml?tourn_id=36095&result_id=6''"
  by (simp add: result_url_def BASE_def py_str_int_def dec.simps)

lemma url7:
  "result_url ''36095'' 7 =
   ''https://www.tabroom.com/index/tourn/results/event_results.mhtml?tourn_id=36095&result_id=7''"
  by (simp add: result_url_def BASE_def py_str_int_def dec.simps)

lemma flaky5:
  "page_has_tfa_points flaky_site ''36095'' 5 urls =
   (Inr ([ann_lee ''Varsity LD''], ''Varsity LD''), urls @ [result_url ''36095'' 5])"
  by (simp add: page_has_tfa_points_def get_soup_def flaky_site_def url5 urlidx
      find_in_result_page name_result_page parse_points_table Let_def)

lemma flaky6_site: "flaky_site (result_url ''36095'' 6) = Inl Timeout"
  by (simp add: flaky_site_def url5 url6 urlidx)

lemma flaky6:
  "page_has_tfa_points flaky_site ''36095'' 6 urls = (Inl Timeout, urls @ [result_url ''36095'' 6])"
  by (simp add: page_has_tfa_points_def get_soup_def flaky6_site)

lemma demo5:
  "page_has_tfa_points demo_site ''36095'' 5 urls =
   (Inr ([ann_lee ''Varsity LD''], ''Varsity LD''), urls @ [result_url ''36095'' 5])"
  by (simp add: page_has_tfa_points_def get_soup_def demo_site_def url5 urlidx
      find_in_result_page name_result_page parse_points_table Let_def)

lemma demo6_site: "demo_site (result_url ''36095'' 6) = Inl HTTPError"
  by (simp add: demo_site_def url5 url6 urlidx)

lemma demo7_site: "demo_site (result_url ''36095'' 7) = Inl HTTPError"
  by (simp add: demo_site_def url5 url7 urlidx)

subsection \<open>One probe, one step of the scan\<close>

lemma probe_urls: "snd (page_has_tfa_points site t r urls) = urls @ [result_url t r]"
  by (simp add: page_has_tfa_points_def get_soup_def Let_def
      split: sum.splits transport_error.splits option.splits prod.splits)

lemma probe_result:
  "fst (page_has_tfa_points site t r urls) = fst (page_has_tfa_points site t r [])"
  by (simp add: page_has_tfa_points_def get_soup_def Let_def
      split: sum.splits transport_error.splits option.splits prod.splits)

lemma probe_Inl:
  "page_rows site t r = Inl e \<Longrightarrow>
   page_has_tfa_points site t r urls = (Inl e, urls @ [result_url t r])"
  using probe_urls [of site t r urls] probe_result [of site t r urls]
  by (cases "page_has_tfa_points site t r urls") (auto simp add: page_rows_def split: sum.splits)

lemma probe_Inr:
  "page_rows site t r = Inr rows \<Longrightarrow>
   \<exists>ev. page_has_tfa_points site t r urls = (Inr (rows, ev), urls @ [result_url t r])"
  using probe_urls [of site t r urls] probe_result [of site t r urls]
  by (cases "page_has_tfa_points site t r urls") (auto simp add: page_rows_def split: sum.splits)

lemma page_rows_HTTPError: "site (result_url t r) = Inl HTTPError \<Longrightarrow> page_rows site t r = Inr []"
  by (simp add: page_rows_def page_has_tfa_points_def get_soup_def)

lemma page_rows_other:
  "site (result_url t r) = Inl e \<Longrightarrow> e \<noteq> HTTPError \<Longrightarrow> page_rows site t r = Inl e"
  by (cases e) (simp_all add: page_rows_def page_has_tfa_points_def get_soup_def)

lemma scan_stop:
  "\<not> empty_streak st < limit \<Longrightarrow> scan_loop site t limit st urls = Some (Inr st, urls)"
  by (subst scan_loop.simps) simp

lemma scan_abort:
  assumes "empty_streak st < limit" and "page_rows site t (rid st) = Inl e"
  shows "scan_loop site t limit st urls = Some (Inl e, urls @ [result_url t (rid st)])"
  using assms(1) probe_Inl [OF assms(2), of urls] by (subst scan_loop.simps) simp

lemma scan_hit:
  assumes "empty_streak st < limit" and "page_rows site t (rid st) = Inr rows" and "rows \<noteq> []"
  shows "scan_loop site t limit st urls =
         scan_loop site t limit
           \<lparr>all_rows = all_rows st @ rows, rid = rid st + 1, empty_streak = 0\<rparr>
           (urls @ [result_url t (rid st)])"
  using assms(1,3) probe_Inr [OF assms(2), of urls] by (subst scan_loop.simps) auto

lemma scan_miss:
  assumes "empty_streak st < limit" and "page_rows site t (rid st) = Inr []"
  shows "scan_loop site t limit st urls =
         scan_loop site t limit
           \<lparr>all_rows = all_rows st, rid = rid st + 1, empty_streak = empty_streak st + 1\<rparr>
           (urls @ [result_url t (rid st)])"
  using assms(1) probe_Inr [OF assms(2), of urls] by (subst scan_loop.simps) auto

subsection \<open>Transport errors\<close>

text \<open>
  Claim C2, as the code has it. An HTTP failure status on the probe of a result page is
  no data for that identifier: \<open>page_has_tfa_points\<close> returns no rows and
  \<open>Unknown Event\<close>, and the scan goes on to the next identifier with the empty streak
  one higher. A timeout or a connection failure is not caught: it leaves
  \<open>page_has_tfa_points\<close>, and the scan ends with it.
\<close>

theorem http_error_is_no_data:
  "(site (result_url t r) = Inl HTTPError \<longrightarrow>
       page_has_tfa_points site t r urls = (Inr ([], ''Unknown Event''), urls @ [result_url t r])
     \<and> (s < limit \<longrightarrow>
          scan_loop site t limit \<lparr>all_rows = acc, rid = r, empty_streak = s\<rparr> urls =
          scan_loop site t limit \<lparr>all_rows = acc, rid = r + 1, empty_streak = s + 1\<rparr>
            (urls @ [result_url t r])))
   \<and> (site (result_url t r) = Inl e \<and> e \<noteq> HTTPError \<longrightarrow>
       page_has_tfa_points site t r urls = (Inl e, urls @ [result_url t r])
     \<and> (s < limit \<longrightarrow>
          scan_loop site t limit \<lparr>all_rows = acc, rid = r, empty_streak = s\<rparr> urls =
          Some (Inl e, urls @ [result_url t r])))"
proof (intro conjI impI)
  assume h: "site (result_url t r) = Inl HTTPError"
  show "page_has_tfa_points site t r urls = (Inr ([], ''Unknown Event''), urls @ [result_url t r])"
    using h by (simp add: page_has_tfa_points_def get_soup_def)
  assume "s < limit"
  then show "scan_loop site t limit \<lparr>all_rows = acc, rid = r, empty_streak = s\<rparr> urls =
          scan_loop site t limit \<lparr>all_rows = acc, rid = r + 1, empty_streak = s + 1\<rparr>
            (urls @ [result_url t r])"
    using scan_miss [of "\<lparr>all_rows = acc, rid = r, empty_streak = s\<rparr>" limit site t urls]
      page_rows_HTTPError [of site t r] h by simp
next
  assume h: "site (result_url t r) = Inl e \<and> e \<noteq> HTTPError"
  then have p: "page_rows site t r = Inl e" by (simp add: page_rows_other)
  show "page_has_tfa_points site t r urls = (Inl e, urls @ [result_url t r])"
    using probe_Inl [OF p] .
  assume "s < limit"
  then show "scan_loop site t limit \<lparr>all_rows = acc, rid = r, empty_streak = s\<rparr> urls =
          Some (Inl e, urls @ [result_url t r])"
    using scan_abort [of "\<lparr>all_rows = acc, rid = r, empty_streak = s\<rparr>" limit site t e urls] p
    by simp
qed

theorem http_error_is_no_data_witness:
  "demo_site (result_url ''36095'' 6) = Inl HTTPError
   \<and> page_has_tfa_points demo_site ''36095'' 6 [] =
       (Inr ([], ''Unknown Event''), [result_url ''36095'' 6])
   \<and> scan_loop demo_site ''36095'' 12 \<lparr>all_rows = [], rid = 6, empty_streak = 0\<rparr> [] =
     scan_loop demo_site ''36095'' 12 \<lparr>all_rows = [], rid = 7, empty_streak = 1\<rparr>
       [result_url ''36095'' 6]
   \<and> flaky_site (result_url ''36095'' 6) = Inl Timeout
   \<and> page_has_tfa_points flaky_site ''36095'' 6 [] = (Inl Timeout, [result_url ''36095'' 6])
   \<and> scan_loop flaky_site ''36095'' 12 \<lparr>all_rows = [], rid = 6, empty_streak = 0\<rparr> [] =
     Some (Inl Timeout, [result_url ''36095'' 6])"
  using demo6_site flaky6_site
    http_error_is_no_data [of demo_site "''36095''" 6 "[]" 0 12 "[]" Timeout]
    http_error_is_no_data [of flaky_site "''36095''" 6 "[]" 0 12 "[]" Timeout]
  by simp

text \<open>
  Claim C2 as stated fails on a timeout. On \<open>flaky_site\<close> the index lists result page 5,
  page 5 has one row and the request for page 6 times out: the probe of 6 returns no
  row list, and the whole scrape ends with the timeout, the row of page 5 lost.
\<close>

theorem timeout_aborts_scan:
  "page_has_tfa_points flaky_site ''36095'' 6 [] = (Inl Timeout, [result_url ''36095'' 6])
   \<and> scrape_tfa_tournament flaky_site ''36095'' 12 =
       Some (Inl Timeout,
             [index_url ''36095'', result_url ''36095'' 5, result_url ''36095'' 5,
              result_url ''36095'' 6])"
proof -
  have "extract_result_ids_from_index flaky_site ''36095'' [] = (Inr [5], [index_url ''36095''])"
    by (simp add: extract_result_ids_from_index_def get_soup_def flaky_site_def ids_index_page)
  moreover have "find_true_starting_result_id flaky_site ''36095'' [5] urls =
                 (Inr (Some 5), urls @ [result_url ''36095'' 5])" for urls
    by (simp add: find_true_starting_result_id_def flaky5)
  moreover have "scan_from flaky_site ''36095'' 12 5 urls =
                 Some (Inl Timeout, urls @ [result_url ''36095'' 5, result_url ''36095'' 6])" for urls
    unfolding scan_from_def
    apply (subst scan_loop.simps)
    apply (simp add: flaky5)
    apply (subst scan_loop.simps)
    apply (simp add: flaky6)
    done
  ultimately show ?thesis
    by (simp add: scrape_tfa_tournament_def flaky6)
qed

subsection \<open>The keys of a record\<close>

lemma parse_row_keys:
  "parse_row ev r = Some d \<Longrightarrow>
   map fst d = [''points'', ''entry'', ''school'', ''qualifying_event'', ''event'']"
  by (auto simp add: parse_row_def Let_def split: if_splits option.splits)

lemma parse_tfa_rows_keys:
  "d \<in> set (parse_tfa_rows table ev) \<Longrightarrow>
   map fst d = [''points'', ''entry'', ''school'', ''qualifying_event'', ''event'']"
  by (auto simp add: parse_tfa_rows_def Let_def List.map_filter_def parse_row_keys
      split: if_splits)

lemma frame_columns_same_keys:
  assumes "scraped \<noteq> []" and "\<And>d. d \<in> set scraped \<Longrightarrow> map fst d = ks"
  shows "set (frame_columns scraped) = set ks"
proof -
  obtain d ds where "scraped = d # ds" using assms(1) by (cases scraped) auto
  then show ?thesis using assms(2) by (auto simp add: frame_columns_def)
qed

text \<open>
  Claim C1 does not hold of the code. Every record \<open>parse_tfa_rows\<close> produces has the
  five keys \<open>points\<close>, \<open>entry\<close>, \<open>school\<close>, \<open>qualifying_event\<close> and \<open>event\<close>, and no
  key \<open>tournament\<close>; so the column selection of \<open>app.py\<close>, which asks for
  \<open>tournament\<close>, raises \<open>KeyError\<close> on every scrape that found a record.
\<close>

theorem records_lack_tournament:
  assumes "d \<in> set (parse_tfa_rows table ev)"
  shows "map fst d = [''points'', ''entry'', ''school'', ''qualifying_event'', ''event'']
         \<and> map_of d ''tournament'' = None
         \<and> new_df (parse_tfa_rows table ev) = Inl (KeyError [''tournament''])"
proof -
  have k: "map fst d = [''points'', ''entry'', ''school'', ''qualifying_event'', ''event'']"
    using assms by (rule parse_tfa_rows_keys)
  have "''tournament'' \<notin> set (map fst d)" unfolding k by simp
  then have m: "map_of d ''tournament'' = None"
    by (simp add: map_of_eq_None_iff)
  have "parse_tfa_rows table ev \<noteq> []" using assms by auto
  then have "set (frame_columns (parse_tfa_rows table ev)) =
             set [''points'', ''entry'', ''school'', ''qualifying_event'', ''event'']"
    by (rule frame_columns_same_keys) (rule parse_tfa_rows_keys)
  then have "new_df (parse_tfa_rows table ev) = Inl (KeyError [''tournament''])"
    by (simp add: new_df_def select_columns_def sheet_columns_def)
  with k m show ?thesis by simp
qed

theorem records_lack_tournament_witness:
  "parse_tfa_rows points_table ''Varsity LD'' = [ann_lee ''Varsity LD'']
   \<and> map fst (ann_lee ''Varsity LD'') =
       [''points'', ''entry'', ''school'', ''qualifying_event'', ''event'']
   \<and> map_of (ann_lee ''Varsity LD'') ''tournament'' = None
   \<and> new_df [ann_lee ''Varsity LD''] = Inl (KeyError [''tournament''])"
  using records_lack_tournament [of "ann_lee ''Varsity LD''" points_table "''Varsity LD''"]
  by (simp add: parse_points_table)

subsection \<open>The event name\<close>

text \<open>
  Claim C4 does not hold of the code. A page with no \<open>h2\<close> whose title starts with the
  bar has a title text that is not empty, so the title branch is taken, and the text
  before the bar, stripped, is the empty string: that is the event name, and the record
  of the page carries it.
\<close>

theorem empty_event_name:
  "get_event_name untitled_page = []
   \<and> page_has_tfa_points (\<lambda>url. Inr untitled_page) ''36095'' 5 [] =
       (Inr ([ann_lee []], []), [result_url ''36095'' 5])"
  by (simp add: name_untitled_page page_has_tfa_points_def get_soup_def find_in_untitled_page
      parse_points_table Let_def)

subsection \<open>Runs of the scan\<close>

lemma scan_misses:
  assumes "empty_streak st + int k \<le> limit"
    and "\<forall>i. rid st \<le> i \<and> i < rid st + int k \<longrightarrow> page_rows site t i = Inr []"
  shows "scan_loop site t limit st urls =
         scan_loop site t limit
           \<lparr>all_rows = all_rows st, rid = rid st + int k, empty_streak = empty_streak st + int k\<rparr>
           (urls @ map (result_url t) [rid st..rid st + int k - 1])"
  using assms
proof (induction k arbitrary: st urls)
  case 0
  then show ?case by (cases st) simp
next
  case (Suc k)
  let ?st = "\<lparr>all_rows = all_rows st, rid = rid st + 1, empty_streak = empty_streak st + 1\<rparr>"
  have lt: "empty_streak st < limit" using Suc.prems(1) by simp
  have here: "page_rows site t (rid st) = Inr []" using Suc.prems(2) by simp
  have step: "scan_loop site t limit st urls = scan_loop site t limit ?st (urls @ [result_url t (rid st)])"
    using scan_miss [OF lt here] .
  have "scan_loop site t limit ?st (urls @ [result_url t (rid st)]) =
        scan_loop site t limit
           \<lparr>all_rows = all_rows ?st, rid = rid ?st + int k, empty_streak = empty_streak ?st + int k\<rparr>
           ((urls @ [result_url t (rid st)]) @ map (result_url t) [rid ?st..rid ?st + int k - 1])"
    by (rule Suc.IH) (use Suc.prems in auto)
  moreover have "[rid st..rid st + int (Suc k) - 1] = rid st # [rid st + 1..rid st + 1 + int k - 1]"
    by (simp add: upto_rec1)
  ultimately show ?case using step by (simp add: add.commute add.left_commute)
qed


text \<open>What the loop has done when it returns: it probed the identifiers from its
  start up to some point, each once and in order, and gathered their rows.\<close>

lemma rows_at_Inr: "page_rows site t r = Inr rows \<Longrightarrow> rows_at site t r = rows"
  by (simp add: rows_at_def)

lemma upto_step: "[i..i + int (Suc n) - 1] = i # [i + 1..i + 1 + int n - 1]"
  by (simp add: upto_rec1)


lemma scan_result:
  assumes "scan_loop site t limit st urls = Some y"
  shows "\<exists>n. snd y = urls @ map (result_url t) [rid st..rid st + int n - 1]
           \<and> (\<forall>st'. fst y = Inr st' \<longrightarrow>
                 rid st' = rid st + int n
               \<and> all_rows st' = all_rows st @ concat (map (rows_at site t) [rid st..rid st + int n - 1])
               \<and> \<not> empty_streak st' < limit)"
proof (induction site t limit st urls y rule: scan_loop.raw_induct)
  case (1 loop site t limit st urls y)
  show ?case
  proof (cases "empty_streak st < limit")
    case False
    then have "y = (Inr st, urls)" using "1.hyps" by simp
    then show ?thesis using False by (intro exI [of _ 0]) simp
  next
    case lt: True
    show ?thesis
    proof (cases "page_rows site t (rid st)")
      case (Inl e)
      have "y = (Inl e, urls @ [result_url t (rid st)])"
        using "1.hyps" lt probe_Inl [OF Inl, of urls] by simp
      then show ?thesis by (intro exI [of _ 1]) simp
    next
      case (Inr rows)
      obtain ev where p: "page_has_tfa_points site t (rid st) urls =
                          (Inr (rows, ev), urls @ [result_url t (rid st)])"
        using probe_Inr [OF Inr, of urls] by blast
      let ?st = "if rows \<noteq> []
                 then \<lparr>all_rows = all_rows st @ rows, rid = rid st + 1, empty_streak = 0\<rparr>
                 else \<lparr>all_rows = all_rows st, rid = rid st + 1, empty_streak = empty_streak st + 1\<rparr>"
      have "loop site t limit ?st (urls @ [result_url t (rid st)]) = Some y"
        using "1.hyps" lt p by (simp split: if_splits)
      from "1.IH" [OF this] obtain n where
        u: "snd y = (urls @ [result_url t (rid st)]) @ map (result_url t) [rid ?st..rid ?st + int n - 1]"
        and r: "\<forall>st'. fst y = Inr st' \<longrightarrow>
                 rid st' = rid ?st + int n
               \<and> all_rows st' = all_rows ?st @ concat (map (rows_at site t) [rid ?st..rid ?st + int n - 1])
               \<and> \<not> empty_streak st' < limit"
        by blast
      have rid: "rid ?st = rid st + 1" by simp
      have acc: "all_rows ?st = all_rows st @ rows_at site t (rid st)"
        using rows_at_Inr [OF Inr] by simp
      show ?thesis
      proof (intro exI [of _ "Suc n"] conjI allI impI)
        show "snd y = urls @ map (result_url t) [rid st..rid st + int (Suc n) - 1]"
          using u unfolding rid upto_step by simp
      next
        fix st' assume "fst y = Inr st'"
        with r have a: "rid st' = rid ?st + int n"
          and b: "all_rows st' = all_rows ?st @ concat (map (rows_at site t) [rid ?st..rid ?st + int n - 1])"
          and c: "\<not> empty_streak st' < limit" by blast+
        show "rid st' = rid st + int (Suc n)" using a unfolding rid by simp
        show "all_rows st' = all_rows st @ concat (map (rows_at site t) [rid st..rid st + int (Suc n) - 1])"
          using b unfolding rid acc upto_step by simp
        show "\<not> empty_streak st' < limit" by (rule c)
      qed
    qed
  qed
qed (fact assms)


lemma scan_streak_le:
  assumes "scan_loop site t limit st urls = Some y"
  shows "0 \<le> limit \<and> empty_streak st \<le> limit \<longrightarrow>
         (\<forall>st'. fst y = Inr st' \<longrightarrow> empty_streak st' \<le> limit)"
proof (induction site t limit st urls y rule: scan_loop.raw_induct)
  case (1 loop site t limit st urls y)
  show ?case
  proof (cases "empty_streak st < limit")
    case False
    then have "y = (Inr st, urls)" using "1.hyps" by simp
    then show ?thesis by simp
  next
    case lt: True
    show ?thesis
    proof (cases "page_rows site t (rid st)")
      case (Inl e)
      have "y = (Inl e, urls @ [result_url t (rid st)])"
        using "1.hyps" lt probe_Inl [OF Inl, of urls] by simp
      then show ?thesis by simp
    next
      case (Inr rows)
      obtain ev where p: "page_has_tfa_points site t (rid st) urls =
                          (Inr (rows, ev), urls @ [result_url t (rid st)])"
        using probe_Inr [OF Inr, of urls] by blast
      let ?st = "if rows \<noteq> []
                 then \<lparr>all_rows = all_rows st @ rows, rid = rid st + 1, empty_streak = 0\<rparr>
                 else \<lparr>all_rows = all_rows st, rid = rid st + 1, empty_streak = empty_streak st + 1\<rparr>"
      have "loop site t limit ?st (urls @ [result_url t (rid st)]) = Some y"
        using "1.hyps" lt p by (simp split: if_splits)
      from "1.IH" [OF this] have "0 \<le> limit \<and> empty_streak ?st \<le> limit \<longrightarrow>
          (\<forall>st'. fst y = Inr st' \<longrightarrow> empty_streak st' \<le> limit)" .
      moreover have "0 \<le> limit \<longrightarrow> empty_streak ?st \<le> limit" using lt by simp
      ultimately show ?thesis by blast
    qed
  qed
qed (fact assms)

subsection \<open>Termination of the scan\<close>

lemma scan_tail_terminates:
  assumes "\<forall>i\<ge>rid st. rows_at site t i = []"
  shows "\<exists>y. scan_loop site t limit st urls = Some y"
  using assms
proof (induction "nat (limit - empty_streak st)" arbitrary: st urls)
  case 0
  then have "\<not> empty_streak st < limit" by simp
  then show ?case using scan_stop by blast
next
  case (Suc k)
  then have lt: "empty_streak st < limit" by linarith
  show ?case
  proof (cases "page_rows site t (rid st)")
    case (Inl e)
    then show ?thesis using scan_abort [OF lt Inl] by blast
  next
    case (Inr rows)
    have "rows_at site t (rid st) = []" using Suc.prems by simp
    then have e: "page_rows site t (rid st) = Inr []" using Inr by (simp add: rows_at_def)
    let ?st = "\<lparr>all_rows = all_rows st, rid = rid st + 1, empty_streak = empty_streak st + 1\<rparr>"
    have "\<exists>y. scan_loop site t limit ?st (urls @ [result_url t (rid st)]) = Some y"
    proof (rule Suc.hyps(1))
      have "k = nat (limit - (empty_streak st + 1))" using Suc.hyps(2) by linarith
      then show "k = nat (limit - empty_streak ?st)" by simp
      show "\<forall>i\<ge>rid ?st. rows_at site t i = []" using Suc.prems by simp
    qed
    then show ?thesis using scan_miss [OF lt e] by simp
  qed
qed

lemma scan_terminates_beyond:
  assumes "\<forall>i\<ge>m. rows_at site t i = []"
  shows "\<exists>y. scan_loop site t limit st urls = Some y"
  using assms
proof (induction "nat (m - rid st)" arbitrary: st urls)
  case 0
  then have "\<forall>i\<ge>rid st. rows_at site t i = []" by simp
  then show ?case by (rule scan_tail_terminates)
next
  case (Suc k)
  show ?case
  proof (cases "empty_streak st < limit")
    case False
    then show ?thesis using scan_stop by blast
  next
    case lt: True
    show ?thesis
    proof (cases "page_rows site t (rid st)")
      case (Inl e)
      then show ?thesis using scan_abort [OF lt Inl] by blast
    next
      case (Inr rows)
      let ?st = "if rows \<noteq> []
                 then \<lparr>all_rows = all_rows st @ rows, rid = rid st + 1, empty_streak = 0\<rparr>
                 else \<lparr>all_rows = all_rows st, rid = rid st + 1, empty_streak = empty_streak st + 1\<rparr>"
      have "\<exists>y. scan_loop site t limit ?st (urls @ [result_url t (rid st)]) = Some y"
      proof (rule Suc.hyps(1))
        have "k = nat (m - (rid st + 1))" using Suc.hyps(2) by linarith
        then show "k = nat (m - rid ?st)" by simp
        show "\<forall>i\<ge>m. rows_at site t i = []" by (rule Suc.prems)
      qed
      moreover have "scan_loop site t limit st urls =
                     scan_loop site t limit ?st (urls @ [result_url t (rid st)])"
      proof (cases "rows = []")
        case True
        then show ?thesis using scan_miss [OF lt, of site t urls] Inr by simp
      next
        case False
        then show ?thesis using scan_hit [OF lt Inr False, of urls] by simp
      qed
      ultimately show ?thesis by simp
    qed
  qed
qed

subsection \<open>The URL of a result page determines the identifier\<close>

lemma digit_val_nth: "k < 10 \<Longrightarrow> digit_val (''0123456789'' ! k) = k"
proof -
  assume "k < 10"
  then have "k \<in> {0, 1, 2, 3, 4, 5, 6, 7, 8, 9}" by auto
  then show ?thesis by (auto simp add: digit_val_def)
qed

lemma digits_val_snoc: "digits_val (ds @ [c]) = 10 * digits_val ds + digit_val c"
  by (simp add: digits_val_def)

lemma digits_val_dec: "digits_val (dec n) = n"
proof (induction n rule: dec.induct)
  case (1 n)
  show ?case
  proof (cases "n < 10")
    case True
    then show ?thesis by (subst dec.simps) (simp add: digits_val_def digit_val_nth)
  next
    case False
    then have "digits_val (dec (n div 10)) = n div 10" using 1 by simp
    then show ?thesis using False
      by (subst dec.simps) (simp add: digits_val_snoc digit_val_nth)
  qed
qed

lemma dec_digits: "set (dec n) \<subseteq> set ''0123456789''"
proof (induction n rule: dec.induct)
  case (1 n)
  have d: "k < 10 \<Longrightarrow> ''0123456789'' ! k \<in> set ''0123456789''" for k
    by (rule nth_mem) simp
  show ?case
  proof (cases "n < 10")
    case True
    then show ?thesis using d [of n] by (subst dec.simps) simp
  next
    case False
    then have "set (dec (n div 10)) \<subseteq> set ''0123456789''" using 1 by simp
    moreover have "''0123456789'' ! (n mod 10) \<in> set ''0123456789''" by (rule d) simp
    ultimately show ?thesis using False by (subst dec.simps) simp
  qed
qed

lemma dec_inj: "dec n = dec m \<Longrightarrow> n = m"
  by (metis digits_val_dec)

lemma py_str_int_inj: "py_str_int i = py_str_int j \<Longrightarrow> i = j"
proof -
  assume e: "py_str_int i = py_str_int j"
  have no: "CHR ''-'' # dec a \<noteq> dec b" for a b
  proof
    assume "CHR ''-'' # dec a = dec b"
    then have "CHR ''-'' \<in> set (dec b)" by (metis list.set_intros(1))
    then show False using dec_digits [of b] by auto
  qed
  show ?thesis
  proof (cases "i < 0")
    case True
    then show ?thesis using e no [of "nat (- i)" "nat j"]
      by (cases "j < 0") (auto simp add: py_str_int_def dest: dec_inj)
  next
    case False
    then show ?thesis using e no [of "nat (- j)" "nat i"]
      by (cases "j < 0") (auto simp add: py_str_int_def dest: dec_inj)
  qed
qed

lemma result_url_inj: "result_url t i = result_url t j \<longleftrightarrow> i = j"
  by (auto simp add: result_url_def dest: py_str_int_inj)

lemma demo_rows: "page_rows demo_site ''36095'' i = Inr (if i = 5 then [ann_lee ''Varsity LD''] else [])"
proof (cases "i = 5")
  case True
  then show ?thesis by (simp add: page_rows_def demo5)
next
  case False
  then have "demo_site (result_url ''36095'' i) = Inl HTTPError"
    by (simp add: demo_site_def result_url_not_index result_url_inj)
  then show ?thesis using False by (simp add: page_rows_HTTPError)
qed

subsection \<open>The scan ends\<close>

text \<open>
  Claim C9. When only finitely many identifiers from the start on give rows, and the
  limit is at least 1, the scan loop of \<open>scrape_tfa_tournament\<close> returns, from any
  accumulator and whatever was requested before: it ends with an exception of a probe
  or with the state in which the empty streak has reached the limit.
\<close>

theorem scan_loop_terminates:
  assumes "finite {i. start \<le> i \<and> rows_at site t i \<noteq> []}" and "1 \<le> limit"
  shows "(\<exists>y. scan_loop site t limit \<lparr>all_rows = acc, rid = start, empty_streak = 0\<rparr> urls = Some y
              \<and> (\<forall>st'. fst y = Inr st' \<longrightarrow> empty_streak st' = limit))
         \<and> (\<exists>r. scan_from site t limit start urls = Some r)"
proof -
  let ?N = "{i. start \<le> i \<and> rows_at site t i \<noteq> []}"
  let ?st = "\<lparr>all_rows = acc, rid = start, empty_streak = 0\<rparr>"
  define m where "m = max start (Max (insert start ?N) + 1)"
  have "\<forall>i\<ge>m. rows_at site t i = []"
  proof (intro allI impI)
    fix i assume i: "m \<le> i"
    show "rows_at site t i = []"
    proof (rule ccontr)
      assume "rows_at site t i \<noteq> []"
      moreover have "start \<le> i" using i by (simp add: m_def)
      ultimately have "i \<in> insert start ?N" by simp
      then have "i \<le> Max (insert start ?N)" using assms(1) by (intro Max_ge) auto
      then show False using i by (simp add: m_def)
    qed
  qed
  then obtain y where y: "scan_loop site t limit ?st urls = Some y"
    using scan_terminates_beyond by blast
  have ge: "\<forall>st'. fst y = Inr st' \<longrightarrow> \<not> empty_streak st' < limit"
    using scan_result [OF y] by blast
  have le: "\<forall>st'. fst y = Inr st' \<longrightarrow> empty_streak st' \<le> limit"
    using scan_streak_le [OF y] assms(2) by simp
  have first: "\<exists>y. scan_loop site t limit ?st urls = Some y
                 \<and> (\<forall>st'. fst y = Inr st' \<longrightarrow> empty_streak st' = limit)"
    using y ge le by fastforce
  obtain z where "scan_loop site t limit \<lparr>all_rows = [], rid = start, empty_streak = 0\<rparr> urls = Some z"
    using \<open>\<forall>i\<ge>m. rows_at site t i = []\<close> scan_terminates_beyond by blast
  then have "\<exists>r. scan_from site t limit start urls = Some r"
    by (cases z) (auto simp add: scan_from_def split: sum.splits)
  with first show ?thesis by blast
qed

lemma demo_rows_at: "rows_at demo_site ''36095'' i = (if i = 5 then [ann_lee ''Varsity LD''] else [])"
  by (simp add: rows_at_def demo_rows)

theorem scan_loop_terminates_witness:
  "finite {i. 5 \<le> i \<and> rows_at demo_site ''36095'' i \<noteq> []}
   \<and> (1::int) \<le> 12
   \<and> {i. 5 \<le> i \<and> rows_at demo_site ''36095'' i \<noteq> []} = {5}
   \<and> (\<exists>y. scan_loop demo_site ''36095'' 12 \<lparr>all_rows = [], rid = 5, empty_streak = 0\<rparr> [] = Some y
           \<and> (\<forall>st'. fst y = Inr st' \<longrightarrow> empty_streak st' = 12))
   \<and> (\<exists>r. scan_from demo_site ''36095'' 12 5 [] = Some r)"
proof -
  have s: "{i. 5 \<le> i \<and> rows_at demo_site ''36095'' i \<noteq> []} = {5}"
    by (auto simp add: demo_rows_at ann_lee_def)
  then have f: "finite {i. 5 \<le> i \<and> rows_at demo_site ''36095'' i \<noteq> []}" by simp
  show ?thesis
    using s f scan_loop_terminates [of 5 demo_site "''36095''" 12 "[]" "[]"] by simp
qed

subsection \<open>The scripted scan\<close>

lemma ids_scripted_index: "index_result_ids scripted_index = [3, 5]"
  by (simp add: index_result_ids_def scripted_index_def select_result_links_def link_result_id_def
      List.map_filter_def result_id_pattern_def literal_def is_digit_def py_int_def
      digits_val_def digit_val_def)

lemma probe_result_page:
  "site (result_url t r) = Inr result_page \<Longrightarrow>
   page_has_tfa_points site t r urls =
   (Inr ([ann_lee ''Varsity LD''], ''Varsity LD''), urls @ [result_url t r])"
  by (simp add: page_has_tfa_points_def get_soup_def find_in_result_page name_result_page
      parse_points_table Let_def)

lemma scripted_page_rows: "page_rows scripted_site ''36095'' i = Inr (scripted_rows i)"
proof (cases "i = 5 \<or> i = 6 \<or> i = 9")
  case True
  then have "scripted_site (result_url ''36095'' i) = Inr result_page"
    by (auto simp add: scripted_site_def result_url_not_index)
  then show ?thesis using True
    by (simp add: page_rows_def probe_result_page scripted_rows_def)
next
  case False
  then have "scripted_site (result_url ''36095'' i) = Inl HTTPError"
    by (simp add: scripted_site_def result_url_not_index result_url_inj)
  then show ?thesis using False by (simp add: page_rows_HTTPError scripted_rows_def)
qed

lemma seek_start_found:
  assumes "\<forall>c\<in>set pre. page_rows site t c = Inr []"
    and "page_rows site t s = Inr rows" and "rows \<noteq> []"
  shows "seek_start site t (pre @ s # post) urls =
         (Inr (Some s), urls @ map (result_url t) (pre @ [s]))"
  using assms(1)
proof (induction pre arbitrary: urls)
  case Nil
  obtain ev where "page_has_tfa_points site t s urls = (Inr (rows, ev), urls @ [result_url t s])"
    using probe_Inr [OF assms(2), of urls] by blast
  then show ?case using assms(3) by simp
next
  case (Cons c pre)
  have "page_rows site t c = Inr []" using Cons.prems by simp
  then obtain ev where "page_has_tfa_points site t c urls = (Inr ([], ev), urls @ [result_url t c])"
    using probe_Inr [of site t c "[]" urls] by blast
  moreover have "seek_start site t (pre @ s # post) (urls @ [result_url t c]) =
         (Inr (Some s), (urls @ [result_url t c]) @ map (result_url t) (pre @ [s]))"
    by (rule Cons.IH) (use Cons.prems in simp)
  ultimately show ?case by simp
qed

lemma sort_index_result_ids: "sort (index_result_ids idx) = index_result_ids idx"
  by (simp add: index_result_ids_def sorted_sort_id)

text \<open>
  Claim C5. Let the probes of the identifiers 5 to 21 return, with rows at 5, 6 and 9
  and nowhere else. With the default limit 12 the loop started at 5 probes 5 to 21, each
  once, and stops there, twelve empty identifiers after 9, with the rows of 5, 6 and 9
  in that order; and when the seeking phase ends at 5, that is what
  \<open>scrape_tfa_tournament\<close> returns. In general the loop returns its state as soon as
  the empty streak is not below the limit, and a page with rows sets the streak to 0.
\<close>

theorem scan_stops_twelve_after_nine:
  assumes "\<forall>i\<in>{5..21}. page_rows site t i = Inr (R i)"
    and "\<forall>i\<in>{5..21}. (R i \<noteq> []) = (i \<in> {5, 6, 9})"
  shows "scan_loop site t default_empty_streak_limit
           \<lparr>all_rows = [], rid = 5, empty_streak = 0\<rparr> urls =
         Some (Inr \<lparr>all_rows = R 5 @ R 6 @ R 9, rid = 22, empty_streak = 12\<rparr>,
               urls @ map (result_url t) [5..21])
       \<and> (site (index_url t) = Inr idx \<and> index_result_ids idx = pre @ 5 # post
            \<and> (\<forall>c\<in>set pre. page_rows site t c = Inr []) \<longrightarrow>
          scrape_tfa_tournament site t default_empty_streak_limit =
          Some (Inr (R 5 @ R 6 @ R 9),
                index_url t # map (result_url t) (pre @ [5]) @ map (result_url t) [5..21]))
       \<and> (\<not> empty_streak st < limit \<longrightarrow> scan_loop site t limit st urls = Some (Inr st, urls))
       \<and> (empty_streak st < limit \<and> page_rows site t (rid st) = Inr rows \<and> rows \<noteq> [] \<longrightarrow>
          scan_loop site t limit st urls =
          scan_loop site t limit
            \<lparr>all_rows = all_rows st @ rows, rid = rid st + 1, empty_streak = 0\<rparr>
            (urls @ [result_url t (rid st)]))"
proof -
  let ?u = "result_url t"
  have p: "page_rows site t i = Inr (R i)" if "5 \<le> i" "i \<le> 21" for i
    using assms(1) that by simp
  have e: "R i = []" if "5 \<le> i" "i \<le> 21" "i \<noteq> 5" "i \<noteq> 6" "i \<noteq> 9" for i
    using assms(2) that by auto
  have n5: "R 5 \<noteq> []" and n6: "R 6 \<noteq> []" and n9: "R 9 \<noteq> []"
    using assms(2) by auto
  have loop: "scan_loop site t 12 \<lparr>all_rows = [], rid = 5, empty_streak = 0\<rparr> us =
         Some (Inr \<lparr>all_rows = R 5 @ R 6 @ R 9, rid = 22, empty_streak = 12\<rparr>,
               us @ map ?u [5..21])" for us
  proof -
    have "scan_loop site t 12 \<lparr>all_rows = [], rid = 5, empty_streak = 0\<rparr> us =
          scan_loop site t 12 \<lparr>all_rows = R 5, rid = 6, empty_streak = 0\<rparr> (us @ [?u 5])"
      using scan_hit [of "\<lparr>all_rows = [], rid = 5, empty_streak = 0\<rparr>" 12 site t "R 5" us]
        p [of 5] n5 by simp
    also have "\<dots> = scan_loop site t 12 \<lparr>all_rows = R 5 @ R 6, rid = 7, empty_streak = 0\<rparr>
                      (us @ [?u 5, ?u 6])"
      using scan_hit [of "\<lparr>all_rows = R 5, rid = 6, empty_streak = 0\<rparr>" 12 site t "R 6"
          "us @ [?u 5]"] p [of 6] n6 by simp
    also have "\<dots> = scan_loop site t 12 \<lparr>all_rows = R 5 @ R 6, rid = 9, empty_streak = 2\<rparr>
                      (us @ [?u 5, ?u 6, ?u 7, ?u 8])"
    proof -
      have "\<forall>i. 7 \<le> i \<and> i < 7 + int 2 \<longrightarrow> page_rows site t i = Inr []"
        using p e by auto
      then show ?thesis
        using scan_misses [of "\<lparr>all_rows = R 5 @ R 6, rid = 7, empty_streak = 0\<rparr>" 2 12 site t
            "us @ [?u 5, ?u 6]"] by simp
    qed
    also have "\<dots> = scan_loop site t 12
                      \<lparr>all_rows = R 5 @ R 6 @ R 9, rid = 10, empty_streak = 0\<rparr>
                      (us @ [?u 5, ?u 6, ?u 7, ?u 8, ?u 9])"
      using scan_hit [of "\<lparr>all_rows = R 5 @ R 6, rid = 9, empty_streak = 2\<rparr>" 12 site t "R 9"
          "us @ [?u 5, ?u 6, ?u 7, ?u 8]"] p [of 9] n9 by simp
    also have "\<dots> = scan_loop site t 12
                      \<lparr>all_rows = R 5 @ R 6 @ R 9, rid = 22, empty_streak = 12\<rparr>
                      (us @ map ?u [5..21])"
    proof -
      have "\<forall>i. 10 \<le> i \<and> i < 10 + int 12 \<longrightarrow> page_rows site t i = Inr []"
        using p e by auto
      then show ?thesis
        using scan_misses [of "\<lparr>all_rows = R 5 @ R 6 @ R 9, rid = 10, empty_streak = 0\<rparr>" 12 12
            site t "us @ [?u 5, ?u 6, ?u 7, ?u 8, ?u 9]"] by simp
    qed
    also have "\<dots> = Some (Inr \<lparr>all_rows = R 5 @ R 6 @ R 9, rid = 22, empty_streak = 12\<rparr>,
                           us @ map ?u [5..21])"
      by (rule scan_stop) simp
    finally show ?thesis .
  qed
  have pipeline: "scrape_tfa_tournament site t 12 =
          Some (Inr (R 5 @ R 6 @ R 9), index_url t # map ?u (pre @ [5]) @ map ?u [5..21])"
    if h: "site (index_url t) = Inr idx \<and> index_result_ids idx = pre @ 5 # post
            \<and> (\<forall>c\<in>set pre. page_rows site t c = Inr [])"
  proof -
    have x: "extract_result_ids_from_index site t [] = (Inr (pre @ 5 # post), [index_url t])"
      using h by (simp add: extract_result_ids_from_index_def get_soup_def)
    have "sort (pre @ 5 # post) = pre @ 5 # post"
      using sort_index_result_ids [of idx] h by simp
    then have f: "find_true_starting_result_id site t (pre @ 5 # post) [index_url t] =
               (Inr (Some 5), [index_url t] @ map ?u (pre @ [5]))"
      unfolding find_true_starting_result_id_def
      using seek_start_found [of pre site t 5 "R 5" post "[index_url t]"] h p [of 5] n5
      by simp
    have s: "scan_from site t 12 5 us = Some (Inr (R 5 @ R 6 @ R 9), us @ map ?u [5..21])" for us
      by (simp add: scan_from_def loop)
    show ?thesis
      unfolding scrape_tfa_tournament_def x using f s by simp
  qed
  show ?thesis
    using loop [of urls] pipeline scan_stop [of st limit site t urls]
      scan_hit [of st limit site t rows urls]
    by (simp add: default_empty_streak_limit_def)
qed


theorem scan_stops_twelve_after_nine_witness:
  "filter (\<lambda>i. scripted_rows i \<noteq> []) [5..21] = [5, 6, 9]
   \<and> scan_loop scripted_site ''36095'' default_empty_streak_limit
         \<lparr>all_rows = [], rid = 5, empty_streak = 0\<rparr> [] =
       Some (Inr \<lparr>all_rows = [ann_lee ''Varsity LD'', ann_lee ''Varsity LD'', ann_lee ''Varsity LD''],
                  rid = 22, empty_streak = 12\<rparr>,
             map (result_url ''36095'') [5..21])
   \<and> scrape_tfa_tournament scripted_site ''36095'' default_empty_streak_limit =
       Some (Inr [ann_lee ''Varsity LD'', ann_lee ''Varsity LD'', ann_lee ''Varsity LD''],
             index_url ''36095'' # map (result_url ''36095'') [3, 5]
               @ map (result_url ''36095'') [5..21])
   \<and> scan_loop scripted_site ''36095'' 12 \<lparr>all_rows = [], rid = 22, empty_streak = 12\<rparr> [] =
       Some (Inr \<lparr>all_rows = [], rid = 22, empty_streak = 12\<rparr>, [])
   \<and> scan_loop scripted_site ''36095'' 12 \<lparr>all_rows = [], rid = 9, empty_streak = 2\<rparr> [] =
       scan_loop scripted_site ''36095'' 12
         \<lparr>all_rows = [ann_lee ''Varsity LD''], rid = 10, empty_streak = 0\<rparr> [result_url ''36095'' 9]"
proof -
  have a: "\<forall>i\<in>{5..21}. page_rows scripted_site ''36095'' i = Inr (scripted_rows i)"
    by (simp add: scripted_page_rows)
  have b: "\<forall>i\<in>{5..21}. (scripted_rows i \<noteq> []) = (i \<in> {5, 6, 9})"
    by (simp add: scripted_rows_def)
  have c: "scripted_site (index_url ''36095'') = Inr scripted_index"
    by (simp add: scripted_site_def)
  have d: "index_result_ids scripted_index = [3] @ 5 # []"
    by (simp add: ids_scripted_index)
  have e: "\<forall>c\<in>set [3]. page_rows scripted_site ''36095'' c = Inr []"
    by (simp add: scripted_page_rows scripted_rows_def)
  have f: "filter (\<lambda>i. scripted_rows i \<noteq> []) [5..21] = [5, 6, 9]"
    by (simp add: scripted_rows_def)
  have g: "page_rows scripted_site ''36095'' 9 = Inr [ann_lee ''Varsity LD'']"
    by (simp add: scripted_page_rows scripted_rows_def)
  show ?thesis
    using a b c d e f g
      scan_stops_twelve_after_nine [of scripted_site "''36095''" scripted_rows "[]"
        scripted_index "[3]" "[]" "\<lparr>all_rows = [], rid = 22, empty_streak = 12\<rparr>" 12 "[]"]
      scan_stops_twelve_after_nine [of scripted_site "''36095''" scripted_rows "[]"
        scripted_index "[3]" "[]" "\<lparr>all_rows = [], rid = 9, empty_streak = 2\<rparr>" 12
        "[ann_lee ''Varsity LD'']"]
    by (simp add: scripted_rows_def)
qed

subsection \<open>Seeking and scanning\<close>

lemma seek_start_urls:
  "seek_start site t cs urls = (Inr (Some s), urls') \<Longrightarrow>
   \<exists>pre. urls' = urls @ map (result_url t) (pre @ [s])"
proof (induction cs arbitrary: urls)
  case Nil
  then show ?case by simp
next
  case (Cons c cs)
  show ?case
  proof (cases "page_rows site t c")
    case (Inl e)
    then show ?thesis using Cons.prems probe_Inl [OF Inl, of urls] by simp
  next
    case (Inr rows)
    obtain ev where p: "page_has_tfa_points site t c urls = (Inr (rows, ev), urls @ [result_url t c])"
      using probe_Inr [OF Inr, of urls] by blast
    show ?thesis
    proof (cases "rows = []")
      case False
      then have "s = c" and "urls' = urls @ [result_url t c]" using Cons.prems p by auto
      then show ?thesis by (intro exI [of _ "[]"]) simp
    next
      case True
      then have "seek_start site t cs (urls @ [result_url t c]) = (Inr (Some s), urls')"
        using Cons.prems p by simp
      from Cons.IH [OF this] obtain pre where
        "urls' = (urls @ [result_url t c]) @ map (result_url t) (pre @ [s])" by blast
      then show ?thesis by (intro exI [of _ "c # pre"]) simp
    qed
  qed
qed

text \<open>
  Claim C10. When the index lists a candidate and \<open>scrape_tfa_tournament\<close> returns
  rows, the rows are those of the scan alone: for the identifier \<open>start_id\<close> the
  seeking phase chose and some \<open>n\<close>, the URLs requested after the seeking are those of
  \<open>start_id\<close>, \<open>start_id + 1\<close>, ... , \<open>start_id + n - 1\<close>, each once and in order,
  and the rows returned are the rows of these identifiers, each list once and in that
  order. The seeking phase requested the page of \<open>start_id\<close> too when it found it, and
  its rows are not in the result a second time. (The site is a function of the URL:
  the same URL gives the same page in both phases.)
\<close>

theorem returned_rows_are_scan_rows:
  assumes "site (index_url t) = Inr idx" and "index_result_ids idx \<noteq> []"
    and "scrape_tfa_tournament site t limit = Some (Inr rows, urls)"
  shows "\<exists>found seek_urls start_id n.
           find_true_starting_result_id site t (index_result_ids idx) [index_url t] =
             (Inr found, seek_urls)
         \<and> start_id = (case found of None \<Rightarrow> min_list (index_result_ids idx) | Some s \<Rightarrow> s)
         \<and> (\<forall>s. found = Some s \<longrightarrow> result_url t s \<in> set seek_urls)
         \<and> urls = seek_urls @ map (result_url t) [start_id..start_id + int n - 1]
         \<and> rows = concat (map (rows_at site t) [start_id..start_id + int n - 1])"
proof -
  let ?cs = "index_result_ids idx"
  have x: "extract_result_ids_from_index site t [] = (Inr ?cs, [index_url t])"
    using assms(1) by (simp add: extract_result_ids_from_index_def get_soup_def)
  obtain res seek_urls where f: "find_true_starting_result_id site t ?cs [index_url t] = (res, seek_urls)"
    by (cases "find_true_starting_result_id site t ?cs [index_url t]") auto
  show ?thesis
  proof (cases res)
    case (Inl e)
    then show ?thesis using assms(2,3) x f by (simp add: scrape_tfa_tournament_def)
  next
    case (Inr found)
    define start_id where "start_id = (case found of None \<Rightarrow> min_list ?cs | Some s \<Rightarrow> s)"
    have sf: "scan_from site t limit start_id seek_urls = Some (Inr rows, urls)"
      using assms(2,3) x f Inr by (simp add: scrape_tfa_tournament_def start_id_def)
    then obtain st where
      l: "scan_loop site t limit \<lparr>all_rows = [], rid = start_id, empty_streak = 0\<rparr> seek_urls =
          Some (Inr st, urls)" and r: "rows = all_rows st"
      by (auto simp add: scan_from_def split: option.splits sum.splits prod.splits)
    from scan_result [OF l] obtain n where
      "urls = seek_urls @ map (result_url t) [start_id..start_id + int n - 1]"
      and "all_rows st = concat (map (rows_at site t) [start_id..start_id + int n - 1])"
      by auto
    moreover have "\<forall>s. found = Some s \<longrightarrow> result_url t s \<in> set seek_urls"
    proof (intro allI impI)
      fix s assume "found = Some s"
      then have "seek_start site t (sort ?cs) [index_url t] = (Inr (Some s), seek_urls)"
        using f Inr by (simp add: find_true_starting_result_id_def)
      from seek_start_urls [OF this] show "result_url t s \<in> set seek_urls" by auto
    qed
    ultimately show ?thesis using f Inr r start_id_def by blast
  qed
qed

lemma scrape_demo_site:
  "scrape_tfa_tournament demo_site ''36095'' 2 =
   Some (Inr [ann_lee ''Varsity LD''],
         [index_url ''36095'', result_url ''36095'' 5, result_url ''36095'' 5,
          result_url ''36095'' 6, result_url ''36095'' 7])"
proof -
  have x: "extract_result_ids_from_index demo_site ''36095'' [] = (Inr [5], [index_url ''36095''])"
    by (simp add: extract_result_ids_from_index_def get_soup_def demo_site_def ids_index_page)
  have f: "find_true_starting_result_id demo_site ''36095'' [5] us =
           (Inr (Some 5), us @ [result_url ''36095'' 5])" for us
    by (simp add: find_true_starting_result_id_def demo5)
  have "scan_loop demo_site ''36095'' 2 \<lparr>all_rows = [], rid = 5, empty_streak = 0\<rparr> us =
        scan_loop demo_site ''36095'' 2
          \<lparr>all_rows = [ann_lee ''Varsity LD''], rid = 6, empty_streak = 0\<rparr>
          (us @ [result_url ''36095'' 5])" for us
    using scan_hit [of "\<lparr>all_rows = [], rid = 5, empty_streak = 0\<rparr>" 2 demo_site "''36095''"
        "[ann_lee ''Varsity LD'']" us]
    by (simp add: demo_rows)
  moreover have "scan_loop demo_site ''36095'' 2
          \<lparr>all_rows = [ann_lee ''Varsity LD''], rid = 6, empty_streak = 0\<rparr> us =
        scan_loop demo_site ''36095'' 2
          \<lparr>all_rows = [ann_lee ''Varsity LD''], rid = 8, empty_streak = 2\<rparr>
          (us @ [result_url ''36095'' 6, result_url ''36095'' 7])" for us
    using scan_misses [of "\<lparr>all_rows = [ann_lee ''Varsity LD''], rid = 6, empty_streak = 0\<rparr>" 2 2
        demo_site "''36095''" us]
    by (simp add: demo_rows)
  moreover have "scan_loop demo_site ''36095'' 2
          \<lparr>all_rows = [ann_lee ''Varsity LD''], rid = 8, empty_streak = 2\<rparr> us =
        Some (Inr \<lparr>all_rows = [ann_lee ''Varsity LD''], rid = 8, empty_streak = 2\<rparr>, us)" for us
    by (rule scan_stop) simp
  ultimately have s: "scan_from demo_site ''36095'' 2 5 us =
        Some (Inr [ann_lee ''Varsity LD''],
              us @ [result_url ''36095'' 5, result_url ''36095'' 6, result_url ''36095'' 7])" for us
    by (simp add: scan_from_def)
  show ?thesis unfolding scrape_tfa_tournament_def x by (simp add: f s)
qed

theorem returned_rows_are_scan_rows_witness:
  "demo_site (index_url ''36095'') = Inr index_page
   \<and> index_result_ids index_page \<noteq> []
   \<and> scrape_tfa_tournament demo_site ''36095'' 2 =
       Some (Inr [ann_lee ''Varsity LD''],
             [index_url ''36095'', result_url ''36095'' 5, result_url ''36095'' 5,
              result_url ''36095'' 6, result_url ''36095'' 7])
   \<and> (\<exists>found seek_urls start_id n.
           find_true_starting_result_id demo_site ''36095'' (index_result_ids index_page)
             [index_url ''36095''] = (Inr found, seek_urls)
         \<and> start_id = (case found of None \<Rightarrow> min_list (index_result_ids index_page) | Some s \<Rightarrow> s)
         \<and> (\<forall>s. found = Some s \<longrightarrow> result_url ''36095'' s \<in> set seek_urls)
         \<and> [index_url ''36095'', result_url ''36095'' 5, result_url ''36095'' 5,
              result_url ''36095'' 6, result_url ''36095'' 7] =
             seek_urls @ map (result_url ''36095'') [start_id..start_id + int n - 1]
         \<and> [ann_lee ''Varsity LD''] =
             concat (map (rows_at demo_site ''36095'') [start_id..start_id + int n - 1]))"
proof -
  have a: "demo_site (index_url ''36095'') = Inr index_page"
    by (simp add: demo_site_def)
  have b: "index_result_ids index_page \<noteq> []"
    by (simp add: ids_index_page)
  show ?thesis
    using a b scrape_demo_site
      returned_rows_are_scan_rows [OF a b scrape_demo_site]
    by simp
qed

subsection \<open>The table after the heading\<close>

lemma find_enumerate_first:
  assumes "i < length xs" and "P (xs ! i)" and "\<forall>k<i. \<not> P (xs ! k)"
  shows "List.find (\<lambda>(k, x). P x) (enumerate 0 xs) = Some (i, xs ! i)"
  unfolding find_Some_iff
proof (intro exI [of _ i] conjI allI impI)
  show "i < length (enumerate 0 xs)" using assms(1) by simp
  show "case enumerate 0 xs ! i of (k, x) \<Rightarrow> P x" using assms(1,2) by (simp add: nth_enumerate_eq)
  show "(i, xs ! i) = enumerate 0 xs ! i" using assms(1) by (simp add: nth_enumerate_eq)
  fix k assume "k < i"
  then show "\<not> (case enumerate 0 xs ! k of (k, x) \<Rightarrow> P x)"
    using assms(1,3) by (simp add: nth_enumerate_eq)
qed

lemma find_enumerate_next:
  assumes "i < j" and "j < length xs" and "Q (xs ! j)" and "\<forall>k. i < k \<and> k < j \<longrightarrow> \<not> Q (xs ! k)"
  shows "List.find (\<lambda>(k, x). Q x) (drop (Suc i) (enumerate 0 xs)) = Some (j, xs ! j)"
  unfolding find_Some_iff
proof (intro exI [of _ "j - Suc i"] conjI allI impI)
  show "j - Suc i < length (drop (Suc i) (enumerate 0 xs))" using assms(1,2) by simp
  show "case drop (Suc i) (enumerate 0 xs) ! (j - Suc i) of (k, x) \<Rightarrow> Q x"
    using assms(1,2,3) by (simp add: nth_enumerate_eq)
  show "(j, xs ! j) = drop (Suc i) (enumerate 0 xs) ! (j - Suc i)"
    using assms(1,2) by (simp add: nth_enumerate_eq)
  fix k assume "k < j - Suc i"
  then show "\<not> (case drop (Suc i) (enumerate 0 xs) ! k of (k, x) \<Rightarrow> Q x)"
    using assms(1,2,4) by (simp add: nth_enumerate_eq)
qed

lemma py_in_iff: "py_in p s \<longleftrightarrow> (\<exists>xs ys. s = xs @ p @ ys)"
proof (induction s)
  case Nil
  then show ?case by auto
next
  case (Cons c cs)
  show ?case
  proof
    assume "py_in p (c # cs)"
    then consider "prefix p (c # cs)" | "py_in p cs" by auto
    then show "\<exists>xs ys. c # cs = xs @ p @ ys"
    proof cases
      case 1
      then obtain ys where "c # cs = p @ ys" by (auto simp add: prefix_def)
      then have "c # cs = [] @ p @ ys" by simp
      then show ?thesis by blast
    next
      case 2
      then obtain xs ys where "cs = xs @ p @ ys" using Cons.IH by blast
      then have "c # cs = (c # xs) @ p @ ys" by simp
      then show ?thesis by blast
    qed
  next
    assume "\<exists>xs ys. c # cs = xs @ p @ ys"
    then obtain xs ys where e: "c # cs = xs @ p @ ys" by blast
    show "py_in p (c # cs)"
    proof (cases xs)
      case Nil
      then have "prefix p (c # cs)" using e by (simp add: prefix_def)
      then show ?thesis by simp
    next
      case (Cons x xs')
      then have "cs = xs' @ p @ ys" using e by simp
      then have "py_in p cs" using Cons.IH by blast
      then show ?thesis by simp
    qed
  qed
qed

lemma py_in_trans: "py_in a b \<Longrightarrow> py_in b c \<Longrightarrow> py_in a c"
proof -
  assume "py_in a b" and "py_in b c"
  then obtain xs ys us vs where "b = xs @ a @ ys" and "c = us @ b @ vs"
    unfolding py_in_iff by blast
  then have "c = (us @ xs) @ a @ (ys @ vs)" by simp
  then show ?thesis unfolding py_in_iff by blast
qed

lemma tfa_in_marker: "py_in ''TFA'' ''TFA Qualification''"
  by simp

text \<open>
  Claim C6, as the code has it. The heading the locator uses is the first \<open>h3\<close> or
  \<open>h4\<close> in document order whose \<open>string\<close> contains \<open>TFA\<close> or \<open>Qualification\<close>
  (so any \<open>h3\<close> or \<open>h4\<close> whose string contains \<open>TFA Qualification\<close> is such a
  heading). When a table follows that heading, the locator returns the first table after
  it in document order, whatever other tables the page has: the fallback is not
  consulted.
\<close>

theorem heading_table_first:
  assumes "i < j" and "j < length (descendants soup)"
    and "heading_matches (descendants soup ! i)"
    and "\<forall>k<i. \<not> heading_matches (descendants soup ! k)"
    and "is_tag [''table''] (descendants soup ! j)"
    and "\<forall>k. i < k \<and> k < j \<longrightarrow> \<not> is_tag [''table''] (descendants soup ! k)"
  shows "find_tfa_table soup = Some (j, descendants soup ! j)
       \<and> (is_tag [''h3'', ''h4''] h \<and> node_string h = Some x \<and> py_in ''TFA Qualification'' x
            \<longrightarrow> heading_matches h)"
proof -
  let ?ds = "descendants soup"
  have i: "i < length ?ds" using assms(1,2) by simp
  have h: "List.find (\<lambda>(k, n). heading_matches n) (enumerate 0 ?ds) = Some (i, ?ds ! i)"
    using find_enumerate_first [of i ?ds heading_matches] i assms(3,4) by simp
  have t: "find_next_table i soup = Some (j, ?ds ! j)"
    unfolding find_next_table_def
    using find_enumerate_next [of i j ?ds "is_tag [''table'']"] assms(1,2,5,6) by simp
  have first: "find_tfa_table soup = Some (j, ?ds ! j)"
    by (simp add: find_tfa_table_def h t)
  have second: "heading_matches h"
    if "is_tag [''h3'', ''h4''] h \<and> node_string h = Some x \<and> py_in ''TFA Qualification'' x"
  proof -
    have "py_in ''TFA'' x" using that tfa_in_marker py_in_trans by blast
    moreover have "x \<noteq> []" using \<open>py_in ''TFA'' x\<close> by (cases x) auto
    ultimately show ?thesis using that by (simp add: heading_matches_def)
  qed
  show ?thesis using first second by blast
qed

lemma all_below_take:
  "n \<le> length xs \<Longrightarrow> list_all P (take n xs) \<Longrightarrow> \<forall>k<n. P (xs ! k)"
  by (simp add: list_all_length)

lemma descendants_preferred:
  "descendants preferred_page =
     [standings_table, tr [th ''Place'', th ''Points'', th ''School''],
      th ''Place'', Text ''Place'', th ''Points'', Text ''Points'', th ''School'', Text ''School'',
      Element ''h4'' [] [Text ''TFA Qualification''], Text ''TFA Qualification'', points_table]
     @ descendants points_table"
  by (simp add: preferred_page_def standings_table_def points_table_def tr_def th_def td_def)

theorem heading_table_first_witness:
  "fallback_scan preferred_page = Some (0, standings_table)
   \<and> descendants preferred_page ! 8 = Element ''h4'' [] [Text ''TFA Qualification'']
   \<and> heading_matches (Element ''h4'' [] [Text ''TFA Qualification''])
   \<and> find_tfa_table preferred_page = Some (10, points_table)"
proof -
  let ?ds = "descendants preferred_page"
  let ?h = "Element ''h4'' [] [Text ''TFA Qualification'']"
  have len: "10 < length ?ds" by (simp add: descendants_preferred)
  have h: "?ds ! 8 = ?h" by (simp add: descendants_preferred)
  have hm: "heading_matches (?ds ! 8)" unfolding h by (simp add: heading_matches_def)
  have "list_all (\<lambda>n. \<not> heading_matches n) (take 8 ?ds)"
    by (simp add: descendants_preferred heading_matches_def standings_table_def tr_def th_def)
  then have before: "\<forall>k<8. \<not> heading_matches (?ds ! k)"
    using len by (intro all_below_take) simp_all
  have tbl: "?ds ! 10 = points_table" by (simp add: descendants_preferred)
  have t: "is_tag [''table''] (?ds ! 10)" unfolding tbl by (simp add: points_table_def)
  have between: "\<forall>k. 8 < k \<and> k < 10 \<longrightarrow> \<not> is_tag [''table''] (?ds ! k)"
  proof (intro allI impI)
    fix k :: nat assume "8 < k \<and> k < 10"
    then have "k = 9" by linarith
    then show "\<not> is_tag [''table''] (?ds ! k)" by (simp add: descendants_preferred)
  qed
  have fb: "fallback_scan preferred_page = Some (0, standings_table)"
    by (simp add: fallback_scan_def fallback_matches_def header_texts_def preferred_page_def
        standings_table_def points_table_def dom_defs py_lower_def to_lower_def)
  have s: "is_tag [''h3'', ''h4''] ?h \<and> node_string ?h = Some ''TFA Qualification''
           \<and> py_in ''TFA Qualification'' ''TFA Qualification''" by simp
  show ?thesis
    using fb h tbl s
      heading_table_first [of 8 10 preferred_page ?h "''TFA Qualification''",
        OF _ len hm before t between]
    by simp
qed

text \<open>
  Claim C6 as stated fails when an earlier heading carries a marker. On
  \<open>two_headings_page\<close> the \<open>h4\<close> heading \<open>TFA Qualification\<close> is followed by the
  points table, but the \<open>h3\<close> heading \<open>TFA District 5\<close> comes first, and the locator
  returns the table after that one.
\<close>

theorem earlier_heading_wins:
  "heading_matches (descendants two_headings_page ! 8)
   \<and> node_string (descendants two_headings_page ! 8) = Some ''TFA Qualification''
   \<and> find_next_table 8 two_headings_page = Some (10, points_table)
   \<and> find_tfa_table two_headings_page = Some (2, schedule_table)
   \<and> schedule_table \<noteq> points_table"
  by (simp add: find_tfa_table_def find_next_table_def heading_matches_def two_headings_page_def
      schedule_table_def points_table_def dom_defs)

subsection \<open>The points of a cell\<close>




































end
